theory Spec2Isabelle
  imports Main "HOL-Library.Sublist"
begin

section \<open>The regular expressions of the terminator\<close>

text \<open>
  gsql.go hands the terminator flag to Go's \<^verbatim>\<open>regexp\<close> package twice: at start-up
  \<^verbatim>\<open>re = regexp.MustCompile("(" + terminator + ")$")\<close>, and in \<^verbatim>\<open>processLine\<close>
  \<^verbatim>\<open>regexp.MatchString(terminator+"$", line)\<close>. Both patterns are built by string
  concatenation before they are parsed, so the model parses pattern text too.

  The package is the Go standard library's. It is modelled here on a subset of its syntax:
  literal bytes, \<^verbatim>\<open>.\<close>, \<^verbatim>\<open>^\<close>, \<^verbatim>\<open>$\<close>, \<^verbatim>\<open>|\<close>, capturing groups, a punctuation byte
  escaped by a backslash, and one greedy \<^verbatim>\<open>*\<close>, \<^verbatim>\<open>+\<close> or \<^verbatim>\<open>?\<close> after an atom. With the flags
  of \<^verbatim>\<open>regexp.Compile\<close> (no \<^verbatim>\<open>m\<close>, no \<^verbatim>\<open>s\<close>), \<^verbatim>\<open>^\<close> holds at the beginning of the text only,
  \<^verbatim>\<open>$\<close> at its end only, and \<^verbatim>\<open>.\<close> is any character but a newline. Text is a list of bytes;
  patterns are ASCII. The parser answers \<open>None\<close> for a pattern that Go rejects and
  for one outside the subset.
\<close>

datatype regex =
    Empty
  | Lit char
  | AnyNotNL
  | Bol
  | Eol
  | Cat regex regex
  | Alt regex regex
  | Star regex

text \<open>
  The parser keeps, as Go's does, a stack: one frame for each group that is open, holding
  the alternatives already closed by a \<^verbatim>\<open>|\<close> and the atoms of the alternative being read
  (both newest first).
\<close>

type_synonym frame = "regex list \<times> regex list"

fun mk_cat :: "regex list \<Rightarrow> regex" where
  "mk_cat [] = Empty"
| "mk_cat [r] = r"
| "mk_cat (r # rs) = Cat r (mk_cat rs)"

fun mk_alt :: "regex list \<Rightarrow> regex" where
  "mk_alt [] = Empty"
| "mk_alt [r] = r"
| "mk_alt (r # rs) = Alt r (mk_alt rs)"

definition close_frame :: "frame \<Rightarrow> regex" where
  "close_frame f = mk_alt (rev (mk_cat (rev (snd f)) # fst f))"

definition is_rep_op :: "char \<Rightarrow> bool" where
  "is_rep_op c = (c = CHR ''*'' \<or> c = CHR ''+'' \<or> c = CHR ''?'')"

definition starts_with_rep :: "string \<Rightarrow> bool" where
  "starts_with_rep cs = (case cs of [] \<Rightarrow> False | d # _ \<Rightarrow> is_rep_op d)"

definition rep :: "char \<Rightarrow> regex \<Rightarrow> regex" where
  "rep c r = (if c = CHR ''*'' then Star r
              else if c = CHR ''+'' then Cat r (Star r)
              else Alt r Empty)"

definition is_alnum :: "char \<Rightarrow> bool" where
  "is_alnum c = (let n = (of_char c :: nat) in
     (48 \<le> n \<and> n \<le> 57) \<or> (65 \<le> n \<and> n \<le> 90) \<or> (97 \<le> n \<and> n \<le> 122))"

definition is_ascii :: "char \<Rightarrow> bool" where
  "is_ascii c = (of_char c < (128 :: nat))"

definition parse_step :: "char \<Rightarrow> bool \<Rightarrow> frame \<Rightarrow> frame list \<Rightarrow> (frame \<times> frame list) option" where
  "parse_step c rep_follows f st =
     (if c = CHR ''('' then
        (if rep_follows then None else Some (([], []), f # st))
      else if c = CHR '')'' then
        (case st of [] \<Rightarrow> None
         | g # st' \<Rightarrow> Some ((fst g, close_frame f # snd g), st'))
      else if c = CHR ''|'' then Some ((mk_cat (rev (snd f)) # fst f, []), st)
      else if is_rep_op c then
        (case snd f of [] \<Rightarrow> None
         | r # rs \<Rightarrow> if rep_follows then None else Some ((fst f, rep c r # rs), st))
      else if c = CHR ''.'' then Some ((fst f, AnyNotNL # snd f), st)
      else if c = CHR ''^'' then Some ((fst f, Bol # snd f), st)
      else if c = CHR ''$'' then Some ((fst f, Eol # snd f), st)
      else if c = CHR ''['' \<or> c = CHR ''{'' \<or> \<not> is_ascii c then None
      else Some ((fst f, Lit c # snd f), st))"

fun parse_loop :: "string \<Rightarrow> frame \<Rightarrow> frame list \<Rightarrow> regex option" where
  "parse_loop [] f [] = Some (close_frame f)"
| "parse_loop [] f (g # st) = None"
| "parse_loop (c # cs) f st =
     (if c = CHR 0x5C then
        (case cs of [] \<Rightarrow> None
         | d # ds \<Rightarrow>
             if is_ascii d \<and> \<not> is_alnum d then parse_loop ds (fst f, Lit d # snd f) st
             else None)
      else
        (case parse_step c (starts_with_rep cs) f st of None \<Rightarrow> None
         | Some (f', st') \<Rightarrow> parse_loop cs f' st'))"

definition parse :: "string \<Rightarrow> regex option" where
  "parse p = parse_loop p ([], []) []"

text \<open>
  Matching is by backtracking in Go's order of preference (leftmost-first): \<open>rmatch r s i\<close>
  lists the positions at which a match of \<open>r\<close> that starts at position \<open>i\<close> of the text
  \<open>s\<close> can end, the preferred one first. An alternation prefers its left branch, a star
  prefers one more iteration, and an iteration of a star that consumes nothing is not
  repeated, so at most \<open>length s\<close> iterations are tried.
\<close>

fun star_iter :: "(nat \<Rightarrow> nat list) \<Rightarrow> nat \<Rightarrow> nat \<Rightarrow> nat list" where
  "star_iter f 0 i = [i]"
| "star_iter f (Suc n) i =
     concat (map (\<lambda>j. if i < j then star_iter f n j else []) (f i)) @ [i]"

primrec rmatch :: "regex \<Rightarrow> string \<Rightarrow> nat \<Rightarrow> nat list" where
  "rmatch Empty s i = [i]"
| "rmatch (Lit c) s i = (if i < length s \<and> s ! i = c then [Suc i] else [])"
| "rmatch AnyNotNL s i = (if i < length s \<and> s ! i \<noteq> CHR 0x0A then [Suc i] else [])"
| "rmatch Bol s i = (if i = 0 then [i] else [])"
| "rmatch Eol s i = (if i = length s then [i] else [])"
| "rmatch (Cat a b) s i = concat (map (rmatch b s) (rmatch a s i))"
| "rmatch (Alt a b) s i = rmatch a s i @ rmatch b s i"
| "rmatch (Star a) s i = star_iter (rmatch a s) (length s) i"

text \<open>
  \<open>find_match r s n p\<close> is the search of \<^verbatim>\<open>doExecute\<close> from position \<open>p\<close>: the leftmost
  start among the next \<open>n\<close> positions at which \<open>r\<close> matches, with the preferred end.
\<close>

fun find_match :: "regex \<Rightarrow> string \<Rightarrow> nat \<Rightarrow> nat \<Rightarrow> (nat \<times> nat) option" where
  "find_match r s 0 p = None"
| "find_match r s (Suc n) p =
     (case rmatch r s p of [] \<Rightarrow> find_match r s n (Suc p) | e # _ \<Rightarrow> Some (p, e))"

definition doExecute :: "regex \<Rightarrow> string \<Rightarrow> nat \<Rightarrow> (nat \<times> nat) option" where
  "doExecute r s pos = find_match r s (Suc (length s) - pos) pos"

text \<open>
  \<^verbatim>\<open>regexp.MatchString(pattern, s)\<close> returns \<^verbatim>\<open>(false, err)\<close> for a pattern that does
  not compile; \<^verbatim>\<open>processLine\<close> drops the error and keeps the \<^verbatim>\<open>false\<close>.
\<close>

definition MatchString :: "string \<Rightarrow> string \<Rightarrow> bool" where
  "MatchString pattern s =
     (case parse pattern of None \<Rightarrow> False | Some r \<Rightarrow> doExecute r s 0 \<noteq> None)"

text \<open>
  \<^verbatim>\<open>(*Regexp).ReplaceAllString(src, repl)\<close>, after the loop of \<^verbatim>\<open>replaceAll\<close> in
  regexp.go: the matches are searched from left to right, the text between them is copied,
  an empty match right after another match is not replaced, and the search advances by at
  least one byte. \<open>repl\<close> is inserted as it is (gsql.go passes the empty string, which has
  no \<^verbatim>\<open>$\<close> to expand).
\<close>

definition next_searchPos :: "string \<Rightarrow> nat \<Rightarrow> nat \<Rightarrow> nat" where
  "next_searchPos src searchPos e =
     (let width = (if searchPos < length src then 1 else 0 :: nat) in
      if e < searchPos + width then searchPos + width
      else if e < searchPos + 1 then searchPos + 1
      else e)"

function replaceAll :: "regex \<Rightarrow> string \<Rightarrow> string \<Rightarrow> nat \<Rightarrow> nat \<Rightarrow> string \<Rightarrow> string" where
  "replaceAll re src repl lastMatchEnd searchPos buf =
     (if searchPos \<le> length src then
        (case doExecute re src searchPos of
           None \<Rightarrow> buf @ drop lastMatchEnd src
         | Some (b, e) \<Rightarrow>
             replaceAll re src repl e (next_searchPos src searchPos e)
               (buf @ take (b - lastMatchEnd) (drop lastMatchEnd src)
                    @ (if lastMatchEnd < e \<or> b = 0 then repl else [])))
      else buf @ drop lastMatchEnd src)"
  by pat_completeness auto

text \<open>A match never ends before it starts, so the search position always advances.\<close>

lemma star_iter_ge: "j \<in> set (star_iter f n i) \<Longrightarrow> i \<le> j"
proof (induction n arbitrary: i j)
  case 0
  then show ?case by simp
next
  case (Suc n)
  from Suc.prems consider "j = i"
    | k where "k \<in> set (f i)" "i < k" "j \<in> set (star_iter f n k)"
    by (auto split: if_splits)
  then show ?case
  proof cases
    case 1
    then show ?thesis by simp
  next
    case 2
    with Suc.IH [of j k] show ?thesis by simp
  qed
qed

lemma rmatch_ge: "j \<in> set (rmatch r s i) \<Longrightarrow> i \<le> j"
proof (induction r arbitrary: i j)
  case (Cat a b)
  then obtain k where "k \<in> set (rmatch a s i)" "j \<in> set (rmatch b s k)" by auto
  with Cat.IH show ?case by (meson le_trans)
next
  case (Star a)
  then show ?case by (simp add: star_iter_ge)
qed (auto split: if_splits)

lemma find_match_ge: "find_match r s n p = Some (b, e) \<Longrightarrow> p \<le> b \<and> b \<le> e"
proof (induction n arbitrary: p)
  case 0
  then show ?case by simp
next
  case (Suc n)
  show ?case
  proof (cases "rmatch r s p")
    case Nil
    with Suc.prems have "find_match r s n (Suc p) = Some (b, e)" by simp
    from Suc.IH [OF this] show ?thesis by simp
  next
    case (Cons x xs)
    with Suc.prems have "b = p" "e = x" by simp_all
    moreover have "p \<le> x" using Cons rmatch_ge [of x r s p] by simp
    ultimately show ?thesis by simp
  qed
qed

lemma doExecute_ge: "doExecute r s pos = Some (b, e) \<Longrightarrow> pos \<le> b \<and> b \<le> e"
  unfolding doExecute_def by (rule find_match_ge)

termination replaceAll
proof (relation "measure (\<lambda>(re, src, repl, lastMatchEnd, searchPos, buf). Suc (length src) - searchPos)")
  show "wf (measure (\<lambda>(re, src, repl, lastMatchEnd, searchPos, buf). Suc (length src) - searchPos))"
    by simp
next
  fix re :: regex and src repl buf :: string and lastMatchEnd searchPos :: nat and x2 x y
  assume le: "searchPos \<le> length src"
    and ex: "doExecute re src searchPos = Some x2" and x2: "(x, y) = x2"
  from ex x2 have "searchPos \<le> y" using doExecute_ge [of re src searchPos x y] by simp
  then have "searchPos < next_searchPos src searchPos y"
    by (simp add: next_searchPos_def Let_def)
  with le show "((re, src, repl, y, next_searchPos src searchPos y,
                 buf @ take (x - lastMatchEnd) (drop lastMatchEnd src)
                     @ (if lastMatchEnd < y \<or> x = 0 then repl else [])),
                re, src, repl, lastMatchEnd, searchPos, buf)
               \<in> measure (\<lambda>(re, src, repl, lastMatchEnd, searchPos, buf). Suc (length src) - searchPos)"
    by simp
qed

definition ReplaceAllString :: "regex \<Rightarrow> string \<Rightarrow> string \<Rightarrow> string" where
  "ReplaceAllString re src repl = replaceAll re src repl 0 0 []"

section \<open>processLine\<close>

text \<open>
  The global \<^verbatim>\<open>re\<close> is set once by \<^verbatim>\<open>init\<close>; \<^verbatim>\<open>regexp.MustCompile\<close> panics on a pattern
  that does not compile, which is \<open>None\<close> here.
\<close>

definition init_re :: "string \<Rightarrow> regex option" where
  "init_re terminator = parse (''('' @ terminator @ '')$'')"

text \<open>
  \<^verbatim>\<open>
  func processLine(terminator string, line string, batch string) (batchOut string, found bool) {
      if match, _ := regexp.MatchString(terminator+"$", line); !match {
          if batch == "" {
              batchOut = line
          } else {
              batchOut = batch + "\n" + line
          }
          return batchOut, false
      }
      return batch + re.ReplaceAllString(line, ""), true
  }
  \<close>
  The global \<^verbatim>\<open>re\<close> is the first argument of the model.
\<close>

definition processLine :: "regex \<Rightarrow> string \<Rightarrow> string \<Rightarrow> string \<Rightarrow> string \<times> bool" where
  "processLine re terminator line batch =
     (if \<not> MatchString (terminator @ ''$'') line then
        (if batch = [] then line else batch @ [CHR 0x0A] @ line, False)
      else (batch @ ReplaceAllString re line [], True))"

section \<open>Errors, values, tables and the trace of effects\<close>

text \<open>
  The error values that gsql.go tells apart: \<^verbatim>\<open>io.EOF\<close>, \<^verbatim>\<open>readline.ErrInterrupt\<close>, and any
  other error, given by its message.
\<close>

datatype err = EOF | ErrInterrupt | ErrOther string

definition Error :: "err \<Rightarrow> string" where
  "Error e = (case e of EOF \<Rightarrow> ''EOF'' | ErrInterrupt \<Rightarrow> ''Interrupt'' | ErrOther m \<Rightarrow> m)"

text \<open>The verb \<^verbatim>\<open>%d\<close> of \<^verbatim>\<open>fmt\<close> on an \<^verbatim>\<open>int\<close>.\<close>

fun dec_nat :: "nat \<Rightarrow> string" where
  "dec_nat n = (if n < 10 then [''0123456789'' ! n]
                else dec_nat (n div 10) @ [''0123456789'' ! (n mod 10)])"

declare dec_nat.simps [simp del]

definition dec_int :: "int \<Rightarrow> string" where
  "dec_int i = (if i < 0 then ''-'' @ dec_nat (nat (- i)) else dec_nat (nat i))"

text \<open>
  A \<^verbatim>\<open>driver.Value\<close> that \<^verbatim>\<open>rows.Next\<close> stores, by the cases of the loop at lines 414 to 426:
  \<^verbatim>\<open>nil\<close>; a \<^verbatim>\<open>time.Time\<close>, given by its \<^verbatim>\<open>Format("2006-01-02 15:04:05")\<close>; a \<^verbatim>\<open>[]byte\<close>; any
  other value, given by its \<^verbatim>\<open>fmt.Sprint\<close>.
\<close>

datatype val = Nil | Time string | Bytes string | Other string

definition hexdigit :: "nat \<Rightarrow> char" where
  "hexdigit n = ''0123456789abcdef'' ! (n mod 16)"

definition EncodeToString :: "string \<Rightarrow> string" where
  "EncodeToString bs = concat (map (\<lambda>b. [hexdigit (of_char b div 16), hexdigit (of_char b)]) bs)"

definition is_space :: "char \<Rightarrow> bool" where
  "is_space c = (let n = (of_char c :: nat) in (9 \<le> n \<and> n \<le> 13) \<or> n = 32)"

text \<open>\<^verbatim>\<open>strings.TrimSpace\<close>, on ASCII white space.\<close>

definition TrimSpace :: "string \<Rightarrow> string" where
  "TrimSpace s = rev (dropWhile is_space (rev (dropWhile is_space s)))"

text \<open>
  Lines 415 to 425: the cell \<^verbatim>\<open>data[i]\<close> of a value. A \<^verbatim>\<open>nil\<close> becomes the string
  \<^verbatim>\<open>"NULL"\<close>, a time its formatted string, bytes \<^verbatim>\<open>"0x"\<close> and their hexadecimal digits; the
  result is printed by \<^verbatim>\<open>fmt.Sprint\<close> and trimmed.
\<close>

definition cell :: "val \<Rightarrow> string" where
  "cell v = TrimSpace (case v of Nil \<Rightarrow> ''NULL'' | Time t \<Rightarrow> t
                        | Bytes b \<Rightarrow> ''0x'' @ EncodeToString b | Other x \<Rightarrow> x)"

text \<open>
  The table of \<^verbatim>\<open>tablewriter\<close>, as far as gsql.go drives it: the theme and \<^verbatim>\<open>RowSep\<close> set by
  \<^verbatim>\<open>newTable\<close>, the header, and the rows appended (\<^verbatim>\<open>Append\<close> is taken to copy the row).
\<close>

datatype theme_t = DefaultTheme | ASCIICompact | UtfCompact

record table =
  Theme :: theme_t
  RowSep :: bool
  header :: "string list"
  body :: "string list list"

definition SetHeader :: "table \<Rightarrow> string list \<Rightarrow> table" where
  "SetHeader t cols = t\<lparr>header := cols\<rparr>"

definition Append :: "table \<Rightarrow> string list \<Rightarrow> table" where
  "Append t data = t\<lparr>body := body t @ [data]\<rparr>"

text \<open>
  What the program does to the outside, in order: text printed to standard output by
  \<^verbatim>\<open>fmt.Print\<close>, \<^verbatim>\<open>Printf\<close> and \<^verbatim>\<open>Println\<close>; the prompt set and the history saved on the
  line editor; the query that asks for the server's name; the calls on the connection;
  a table rendered to the writer \<^verbatim>\<open>w\<close>, a line written to it, and its flush.
\<close>

datatype event =
    Stdout string
  | SetPrompt string
  | SaveHistory string
  | SelectValue string
  | Begin
  | Commit
  | Rollback
  | QueryContext string
  | Render table
  | Fprintln string
  | Flush

text \<open>The package-level variables that the loop reads.\<close>

record globals =
  echoInput :: bool
  pageSize :: int
  theme :: string
  terminator :: string
  re :: regex

definition newTable :: "globals \<Rightarrow> table" where
  "newTable g =
     \<lparr>Theme = (if theme g = ''ASCIICompact'' then ASCIICompact
               else if theme g = ''UtfCompact'' then UtfCompact
               else DefaultTheme),
      RowSep = False, header = [], body = []\<rparr>"

section \<open>The scripted reader\<close>

text \<open>
  A \<^verbatim>\<open>fileBatchReader\<close> is the \<^verbatim>\<open>bufio.Reader\<close> over the input file: the bytes not read
  yet, and the error that the file gives after them (\<^verbatim>\<open>io.EOF\<close> at the end of a file).
  \<^verbatim>\<open>ReadString('\n')\<close> returns the bytes up to the first newline and the newline with no
  error, or, when no newline is left, the bytes left and the error.
\<close>

record fileBatchReader =
  unread :: string
  ferr :: err

definition ReadString :: "fileBatchReader \<Rightarrow> string \<times> err option \<times> fileBatchReader" where
  "ReadString r =
     (case dropWhile (\<lambda>c. c \<noteq> CHR 0x0A) (unread r) of
        [] \<Rightarrow> (unread r, Some (ferr r), r\<lparr>unread := []\<rparr>)
      | nl # rest \<Rightarrow> (takeWhile (\<lambda>c. c \<noteq> CHR 0x0A) (unread r) @ [nl], None, r\<lparr>unread := rest\<rparr>))"

lemma ReadString_unread:
  "unread (snd (snd (ReadString r))) =
     (case dropWhile (\<lambda>c. c \<noteq> CHR 0x0A) (unread r) of [] \<Rightarrow> [] | nl # rest \<Rightarrow> rest)"
  by (cases "dropWhile (\<lambda>c. c \<noteq> CHR 0x0A) (unread r)")
     (simp_all add: ReadString_def del: dropWhile_eq_Nil_conv)

lemma ReadString_line_empty:
  "dropWhile (\<lambda>c. c \<noteq> CHR 0x0A) (unread r) = [] \<Longrightarrow>
   fst (ReadString r) = unread r \<and> fst (snd (ReadString r)) = Some (ferr r)"
  by (simp add: ReadString_def del: dropWhile_eq_Nil_conv)

lemma ReadString_le:
  assumes "ReadString r = (line, e, r')"
  shows "length (unread r') \<le> length (unread r)"
proof -
  have u: "unread r' = (case dropWhile (\<lambda>c. c \<noteq> CHR 0x0A) (unread r) of
                          [] \<Rightarrow> [] | nl # rest \<Rightarrow> rest)"
    using ReadString_unread [of r] by (simp only: assms snd_conv)
  have d: "length (dropWhile (\<lambda>c. c \<noteq> CHR 0x0A) (unread r)) \<le> length (unread r)"
    by (rule length_dropWhile_le)
  show ?thesis
  proof (cases "dropWhile (\<lambda>c. c \<noteq> CHR 0x0A) (unread r)")
    case Nil
    then have "unread r' = []" by (simp only: u list.case)
    then show ?thesis by simp
  next
    case (Cons nl rest)
    then have "unread r' = rest" by (simp only: u list.case)
    moreover have "Suc (length rest) \<le> length (unread r)"
      using d by (simp only: Cons list.size length_Cons)
    ultimately show ?thesis by simp
  qed
qed

lemma ReadString_less:
  assumes "ReadString r = (line, e, r')" and "e = None \<or> line \<noteq> []"
  shows "length (unread r') < length (unread r)"
proof -
  have u: "unread r' = (case dropWhile (\<lambda>c. c \<noteq> CHR 0x0A) (unread r) of
                          [] \<Rightarrow> [] | nl # rest \<Rightarrow> rest)"
    using ReadString_unread [of r] by (simp only: assms(1) snd_conv)
  have d: "length (dropWhile (\<lambda>c. c \<noteq> CHR 0x0A) (unread r)) \<le> length (unread r)"
    by (rule length_dropWhile_le)
  show ?thesis
  proof (cases "dropWhile (\<lambda>c. c \<noteq> CHR 0x0A) (unread r)")
    case Nil
    then have "unread r' = []" by (simp only: u list.case)
    moreover from ReadString_line_empty [OF Nil]
    have "line = unread r" "e = Some (ferr r)" by (simp_all only: assms(1) fst_conv snd_conv)
    ultimately show ?thesis using assms(2) by simp
  next
    case (Cons nl rest)
    then have "unread r' = rest" by (simp only: u list.case)
    moreover have "Suc (length rest) \<le> length (unread r)"
      using d by (simp only: Cons list.size length_Cons)
    ultimately show ?thesis by simp
  qed
qed

text \<open>
  \<^verbatim>\<open>
  func (r *fileBatchReader) ReadBatch(terminator string) (batch string, err error) {
      found := false
      lineNo := 1
      batch = ""
      for {
          line, err := r.scanner.ReadString('\n')
          if err != nil && (err != io.EOF || line == "") {
              return batch, err
          }
          batch, found = processLine(terminator, line, batch)
          if found {
              lineNo = 1
              return batch, nil
          }
          if echoInput {
              fmt.Printf("%d> %s", lineNo, line)
          }
          lineNo++
      }
  }
  \<close>
  The loop, from a state \<open>(r, lineNo, batch)\<close>; it returns the batch, the error, the reader
  and the text echoed.
\<close>

function fileBatchReader_loop ::
  "globals \<Rightarrow> string \<Rightarrow> fileBatchReader \<Rightarrow> int \<Rightarrow> string \<Rightarrow> event list
   \<Rightarrow> string \<times> err option \<times> fileBatchReader \<times> event list" where
  "fileBatchReader_loop g term r lineNo batch out =
     (case ReadString r of (line, e, r') \<Rightarrow>
        if e \<noteq> None \<and> (e \<noteq> Some EOF \<or> line = []) then (batch, e, r', out)
        else
          (case processLine (re g) term line batch of (batch', found) \<Rightarrow>
             if found then (batch', None, r', out)
             else fileBatchReader_loop g term r' (lineNo + 1) batch'
                    (if echoInput g then out @ [Stdout (dec_int lineNo @ ''> '' @ line)]
                     else out)))"
  by pat_completeness auto
termination
proof (relation "measure (\<lambda>(g, term, r, lineNo, batch, out). length (unread r))")
  show "wf (measure (\<lambda>(g, term, r, lineNo, batch, out). length (unread r)))" by simp
next
  fix g :: globals and "term" batch :: string and r :: fileBatchReader and lineNo :: int
    and out :: "event list" and x xa y xb ya xc yb
  assume "(xa, y) = ReadString r" "(xb, ya) = y"
    and "\<not> (xb \<noteq> None \<and> (xb \<noteq> Some EOF \<or> xa = []))"
  then have "ReadString r = (xa, xb, ya)" "xb = None \<or> xa \<noteq> []" by auto
  then have "length (unread ya) < length (unread r)" by (rule ReadString_less)
  then show "((g, term, ya, lineNo + 1, xc,
               if echoInput g then out @ [Stdout (dec_int lineNo @ ''> '' @ xa)] else out),
              g, term, r, lineNo, batch, out)
             \<in> measure (\<lambda>(g, term, r, lineNo, batch, out). length (unread r))"
    by simp
qed

declare fileBatchReader_loop.simps [simp del]

definition fileBatchReader_ReadBatch ::
  "globals \<Rightarrow> string \<Rightarrow> fileBatchReader \<Rightarrow> string \<times> err option \<times> fileBatchReader \<times> event list" where
  "fileBatchReader_ReadBatch g term r = fileBatchReader_loop g term r 1 [] []"

section \<open>The connection and its result sets\<close>

text \<open>
  A submission fails with a \<^verbatim>\<open>tds.SybError\<close> or with another error (each given by its
  message), or returns rows. The rows of \<^verbatim>\<open>tds.Rows\<close> are one result set after the other;
  a result set has its columns (\<^verbatim>\<open>nil\<close> is \<open>None\<close>), the rows that \<^verbatim>\<open>Next\<close> stores before it
  returns an error, that error (\<^verbatim>\<open>io.EOF\<close> or another), the pairs returned by
  \<^verbatim>\<open>AffectedRows\<close> and \<^verbatim>\<open>ReturnStatus\<close>, and what follows: nothing (\<^verbatim>\<open>HasNextResultSet\<close> is
  false), or the error or the result set that \<^verbatim>\<open>NextResultSet\<close> gives.
\<close>

datatype qerr = SybError string | OtherError string

datatype rows =
  Rows (Columns: "string list option") (Next: "val list list") (NextErr: err)
       (AffectedRows: "int \<times> bool") (ReturnStatus: "int \<times> bool")
       (NextResultSet: "(err + rows) option")

text \<open>
  The connection: the environment map of \<^verbatim>\<open>GetEnv\<close> (a key that is absent reads as the
  empty string), the answer of \<^verbatim>\<open>SelectValue\<close> to a query (\<open>None\<close> when it fails), and the
  answer of \<^verbatim>\<open>QueryContext\<close> to a batch, which may depend on everything done before.
\<close>

record conn =
  GetEnv :: "string \<Rightarrow> string"
  SelectValue_result :: "string \<Rightarrow> string option"
  QueryContext_result :: "event list \<Rightarrow> string \<Rightarrow> qerr + rows"

section \<open>The interactive reader\<close>

text \<open>
  A \<^verbatim>\<open>readLineBatchReader\<close>: what the next calls of \<^verbatim>\<open>Readline\<close> return (after them the
  terminal is closed and \<^verbatim>\<open>Readline\<close> returns \<^verbatim>\<open>io.EOF\<close>), and the cached server name.
\<close>

record readLineBatchReader =
  Instance :: "(string \<times> err option) list"
  server :: string

text \<open>Lines 191 to 213: the server name and the prompt for line \<open>lineNo\<close>.\<close>

definition servername :: "conn \<Rightarrow> string \<Rightarrow> string \<times> event list" where
  "servername c srv =
     (if srv = [] then
        (case SelectValue_result c ''select @@servername'' of
           None \<Rightarrow> (srv, [SelectValue ''select @@servername''])
         | Some v \<Rightarrow> (v, [SelectValue ''select @@servername'']))
      else (srv, []))"

definition prompt :: "conn \<Rightarrow> string \<Rightarrow> int \<Rightarrow> string \<times> event list" where
  "prompt c srv lineNo =
     (let ty = GetEnv c ''serverType'' in
      if ty = ''ASE'' \<or> ty = ''sql server'' then
        (case servername c srv of (srv', evs) \<Rightarrow>
           (srv', evs @ [SetPrompt (srv' @ ''.'' @ GetEnv c ''database'' @ '' ''
                                     @ dec_int lineNo @ '' $ '')]))
      else if ty = ''SQL Anywhere'' then
        (case servername c srv of (srv', evs) \<Rightarrow>
           (srv', evs @ [SetPrompt (srv' @ '' '' @ dec_int lineNo @ '' $ '')]))
      else
        (GetEnv c ''server'',
         [SetPrompt (GetEnv c ''server'' @ '' '' @ dec_int lineNo @ '' $ '')]))"

definition Readline :: "readLineBatchReader \<Rightarrow> string \<times> err option \<times> readLineBatchReader" where
  "Readline r =
     (case Instance r of [] \<Rightarrow> ([], Some EOF, r)
      | (line, e) # rest \<Rightarrow> (line, e, r\<lparr>Instance := rest\<rparr>))"

text \<open>
  \<^verbatim>\<open>
  func (r *readLineBatchReader) ReadBatch(terminator string) (batch string, err error) {
      found := false
      lineNo := 1
      for {
          var prompt string
          ...
          r.SetPrompt(prompt)
          line, err := r.Readline()

          if err == readline.ErrInterrupt {
              lineNo = 1
              batch = ""
              continue
          }
          if err != nil {
              return "", err
          }

          batch, found = processLine(terminator, line, batch)
          if found {
              lineNo = 1
              r.SaveHistory(batch)
              return batch, nil
          }
          lineNo++
      }
  }
  \<close>
  The loop goes round again only after \<^verbatim>\<open>Readline\<close> has given one of its answers, so it
  ends with them.
\<close>

function readLineBatchReader_loop ::
  "globals \<Rightarrow> conn \<Rightarrow> string \<Rightarrow> readLineBatchReader \<Rightarrow> int \<Rightarrow> string \<Rightarrow> event list
   \<Rightarrow> string \<times> err option \<times> readLineBatchReader \<times> event list" where
  "readLineBatchReader_loop g c term r lineNo batch out =
     (case prompt c (server r) lineNo of (srv, evs) \<Rightarrow>
      case Readline (r\<lparr>server := srv\<rparr>) of (line, e, r') \<Rightarrow>
        if e = Some ErrInterrupt then
          readLineBatchReader_loop g c term r' 1 [] (out @ evs)
        else if e \<noteq> None then ([], e, r', out @ evs)
        else
          (case processLine (re g) term line batch of (batch', found) \<Rightarrow>
             if found then (batch', None, r', out @ evs @ [SaveHistory batch'])
             else readLineBatchReader_loop g c term r' (lineNo + 1) batch' (out @ evs)))"
  by pat_completeness auto
termination
  by (relation "measure (\<lambda>(g, c, term, r, lineNo, batch, out). length (Instance r))")
     (auto simp: Readline_def split: list.splits)

declare readLineBatchReader_loop.simps [simp del]

definition readLineBatchReader_ReadBatch ::
  "globals \<Rightarrow> conn \<Rightarrow> string \<Rightarrow> readLineBatchReader
   \<Rightarrow> string \<times> err option \<times> readLineBatchReader \<times> event list" where
  "readLineBatchReader_ReadBatch g c term r = readLineBatchReader_loop g c term r 1 [] []"

section \<open>Rendering the result sets\<close>

text \<open>
  The remainder \<^verbatim>\<open>%\<close> of Go truncates towards zero, and panics on a zero divisor. The row
  counter \<^verbatim>\<open>r\<close> is an \<^verbatim>\<open>int\<close> of 64 bits; it is an unbounded integer here, a result set
  having fewer than \<open>2 ^ 63\<close> rows.
\<close>

datatype panic = DivideByZero

definition go_rem :: "int \<Rightarrow> int \<Rightarrow> int" where
  "go_rem a b = sgn a * (\<bar>a\<bar> mod \<bar>b\<bar>)"

text \<open>
  \<^verbatim>\<open>rows.Next(vals)\<close> stores a row in \<^verbatim>\<open>vals\<close>, which has \<^verbatim>\<open>len(cols)\<close> places.
\<close>

definition fit :: "nat \<Rightarrow> val list \<Rightarrow> val list" where
  "fit n row = take n (row @ replicate n Nil)"

text \<open>
  Lines 405 to 433, over the rows that \<^verbatim>\<open>Next\<close> gives before its error (the loop breaks on
  \<^verbatim>\<open>io.EOF\<close> and on any other error alike):
  \<^verbatim>\<open>
  r++
  for i := 0; i < len(cols); i++ { ... data[i] = strings.TrimSpace(fmt.Sprint(vals[i])) }
  table.Append(data)
  if r%pageSize == 0 {
      table.Render()
      table = newTable(w)
      table.SetHeader(cols)
  }
  \<close>
\<close>

fun row_loop ::
  "globals \<Rightarrow> string list \<Rightarrow> val list list \<Rightarrow> int \<Rightarrow> table \<Rightarrow> event list
   \<Rightarrow> (panic \<times> event list) + (table \<times> event list)" where
  "row_loop g cols [] r t out = Inr (t, out)"
| "row_loop g cols (vals # rest) r t out =
     (if pageSize g = 0 then Inl (DivideByZero, out)
      else if go_rem (r + 1) (pageSize g) = 0 then
        row_loop g cols rest (r + 1) (SetHeader (newTable g) cols)
          (out @ [Render (Append t (map cell (fit (length cols) vals)))])
      else row_loop g cols rest (r + 1) (Append t (map cell (fit (length cols) vals))) out)"

text \<open>
  Lines 440 to 461, the summary line:
  \<^verbatim>\<open>
  if okAffected {
      if affected > 1 {
          display = fmt.Sprintf("%d rows affected", affected)
      } else {
          display = fmt.Sprintf("%d row affected", affected)
      }
  }
  if okReturnStatus {
      if okAffected {
          display += ", "
      }
      display += fmt.Sprintf("return status = %d", returnStatus)
  }
  if okReturnStatus || okAffected {
      fmt.Fprintln(w, "("+display+")")
  }
  \<close>
\<close>

definition display_affected :: "int \<times> bool \<Rightarrow> string" where
  "display_affected a =
     (if snd a then
        (if 1 < fst a then dec_int (fst a) @ '' rows affected''
         else dec_int (fst a) @ '' row affected'')
      else [])"

definition display_status :: "int \<times> bool \<Rightarrow> int \<times> bool \<Rightarrow> string" where
  "display_status a st =
     (if snd st then
        (if snd a then display_affected a @ '', '' else display_affected a)
          @ ''return status = '' @ dec_int (fst st)
      else display_affected a)"

definition summary :: "int \<times> bool \<Rightarrow> int \<times> bool \<Rightarrow> event list" where
  "summary a st =
     (if snd st \<or> snd a then [Fprintln (''('' @ display_status a st @ '')'')] else [])"

text \<open>
  Lines 391 to 474, the loop over the result sets of one submission. It ends in
  \<^verbatim>\<open>continue input\<close> or in the \<^verbatim>\<open>break\<close> of line 472, after both of which the outer loop
  goes round, in the \<^verbatim>\<open>return\<close> of line 468, or in a panic. \<^verbatim>\<open>data\<close> is made with
  \<^verbatim>\<open>len(cols)\<close> places and keeps them.
\<close>

datatype flow = NextBatch | ReturnMain | Panicked panic

definition after_rows ::
  "string list \<Rightarrow> table \<Rightarrow> int \<times> bool \<Rightarrow> int \<times> bool \<Rightarrow> event list \<Rightarrow> event list" where
  "after_rows cols t aff st out =
     (if 0 < length (replicate (length cols) ([] :: string)) \<and> 0 < length cols
      then out @ [Render t] else out) @ summary aff st @ [Flush]"

fun result_loop :: "globals \<Rightarrow> rows \<Rightarrow> event list \<Rightarrow> flow \<times> event list" where
  "result_loop g (Rows cols rws nerr aff st nxt) out =
     (case cols of
        None \<Rightarrow> (NextBatch, out)
      | Some cs \<Rightarrow>
          (case row_loop g cs rws 0 (SetHeader (newTable g) cs) out of
             Inl (p, out1) \<Rightarrow> (Panicked p, out1)
           | Inr (t, out1) \<Rightarrow>
               (case nxt of
                  None \<Rightarrow> (NextBatch, after_rows cs t aff st out1)
                | Some (Inl e) \<Rightarrow> (ReturnMain, after_rows cs t aff st out1)
                | Some (Inr rs) \<Rightarrow>
                    result_loop g rs (after_rows cs t aff st out1 @ [Stdout [CHR 0x0A]]))))"

section \<open>The main loop\<close>

text \<open>The interface \<^verbatim>\<open>SQLBatchReader\<close> has the two readers as its implementations.\<close>

datatype SQLBatchReader =
    FileBatchReader fileBatchReader
  | ReadLineBatchReader readLineBatchReader

definition ReadBatch ::
  "globals \<Rightarrow> conn \<Rightarrow> string \<Rightarrow> SQLBatchReader
   \<Rightarrow> string \<times> err option \<times> SQLBatchReader \<times> event list" where
  "ReadBatch g c term rd =
     (case rd of
        FileBatchReader r \<Rightarrow>
          (case fileBatchReader_ReadBatch g term r of
             (batch, e, r', out) \<Rightarrow> (batch, e, FileBatchReader r', out))
      | ReadLineBatchReader r \<Rightarrow>
          (case readLineBatchReader_ReadBatch g c term r of
             (batch, e, r', out) \<Rightarrow> (batch, e, ReadLineBatchReader r', out)))"

definition unread_size :: "SQLBatchReader \<Rightarrow> nat" where
  "unread_size rd =
     (case rd of FileBatchReader r \<Rightarrow> length (unread r)
      | ReadLineBatchReader r \<Rightarrow> length (Instance r))"

text \<open>A call of \<^verbatim>\<open>ReadBatch\<close> that returns a batch or no error has consumed input.\<close>

lemma fileBatchReader_loop_unfold:
  assumes "ReadString r = (line, e, r1)"
  shows "fileBatchReader_loop g t r n b out =
     (if e \<noteq> None \<and> (e \<noteq> Some EOF \<or> line = []) then (b, e, r1, out)
      else
        (case processLine (re g) t line b of (b1, found) \<Rightarrow>
           if found then (b1, None, r1, out)
           else fileBatchReader_loop g t r1 (n + 1) b1
                  (if echoInput g then out @ [Stdout (dec_int n @ ''> '' @ line)] else out)))"
  by (subst fileBatchReader_loop.simps) (simp only: assms prod.case)

lemma fileBatchReader_loop_stop:
  assumes "ReadString r = (line, e, r1)" and "e \<noteq> None \<and> (e \<noteq> Some EOF \<or> line = [])"
  shows "fileBatchReader_loop g t r n b out = (b, e, r1, out)"
  by (simp only: fileBatchReader_loop_unfold [OF assms(1)] if_P [OF assms(2)])

lemma fileBatchReader_loop_found:
  assumes "ReadString r = (line, e, r1)" and "\<not> (e \<noteq> None \<and> (e \<noteq> Some EOF \<or> line = []))"
    and "processLine (re g) t line b = (b1, True)"
  shows "fileBatchReader_loop g t r n b out = (b1, None, r1, out)"
  by (simp only: fileBatchReader_loop_unfold [OF assms(1)] if_not_P [OF assms(2)] assms(3)
      prod.case if_True)

lemma fileBatchReader_loop_more:
  assumes "ReadString r = (line, e, r1)" and "\<not> (e \<noteq> None \<and> (e \<noteq> Some EOF \<or> line = []))"
    and "processLine (re g) t line b = (b1, False)"
  shows "fileBatchReader_loop g t r n b out =
         fileBatchReader_loop g t r1 (n + 1) b1
           (if echoInput g then out @ [Stdout (dec_int n @ ''> '' @ line)] else out)"
  by (simp only: fileBatchReader_loop_unfold [OF assms(1)] if_not_P [OF assms(2)] assms(3)
      prod.case if_False)

lemma fileBatchReader_loop_le:
  "fileBatchReader_loop g t r n b out = (b', e, r', out') \<Longrightarrow>
   length (unread r') \<le> length (unread r)"
proof (induction g t r n b out rule: fileBatchReader_loop.induct)
  case (1 g t r lineNo batch out)
  obtain line e1 r1 where rs: "ReadString r = (line, e1, r1)" by (cases "ReadString r") auto
  obtain b1 found where pl: "processLine (re g) t line batch = (b1, found)"
    by (cases "processLine (re g) t line batch") auto
  have le1: "length (unread r1) \<le> length (unread r)" using rs by (rule ReadString_le)
  show ?case
  proof (cases "e1 \<noteq> None \<and> (e1 \<noteq> Some EOF \<or> line = [])")
    case True
    from "1.prems" have "r' = r1" unfolding fileBatchReader_loop_stop [OF rs True] by simp
    with le1 show ?thesis by simp
  next
    case stop: False
    show ?thesis
    proof (cases found)
      case True
      with pl have pl': "processLine (re g) t line batch = (b1, True)" by simp
      from "1.prems" have "r' = r1" unfolding fileBatchReader_loop_found [OF rs stop pl'] by simp
      with le1 show ?thesis by simp
    next
      case False
      with pl have pl': "processLine (re g) t line batch = (b1, False)" by simp
      from "1.prems" have
        "fileBatchReader_loop g t r1 (lineNo + 1) b1
           (if echoInput g then out @ [Stdout (dec_int lineNo @ ''> '' @ line)] else out)
         = (b', e, r', out')"
        unfolding fileBatchReader_loop_more [OF rs stop pl'] .
      then have "length (unread r') \<le> length (unread r1)"
        using "1.IH" [OF rs [symmetric] refl stop pl [symmetric] False] by simp
      with le1 show ?thesis by simp
    qed
  qed
qed

lemma fileBatchReader_loop_less:
  assumes "fileBatchReader_loop g t r n b out = (b', e, r', out')" and "e = None \<or> b' \<noteq> b"
  shows "length (unread r') < length (unread r)"
proof -
  obtain line e1 r1 where rs: "ReadString r = (line, e1, r1)" by (cases "ReadString r") auto
  obtain b1 found where pl: "processLine (re g) t line b = (b1, found)"
    by (cases "processLine (re g) t line b") auto
  show ?thesis
  proof (cases "e1 \<noteq> None \<and> (e1 \<noteq> Some EOF \<or> line = [])")
    case True
    from assms(1) have "b' = b" "e = e1" unfolding fileBatchReader_loop_stop [OF rs True] by simp_all
    with assms(2) True show ?thesis by simp
  next
    case stop: False
    then have "e1 = None \<or> line \<noteq> []" by auto
    with rs have less1: "length (unread r1) < length (unread r)" by (rule ReadString_less)
    show ?thesis
    proof (cases found)
      case True
      with pl have pl': "processLine (re g) t line b = (b1, True)" by simp
      from assms(1) have "r' = r1" unfolding fileBatchReader_loop_found [OF rs stop pl'] by simp
      with less1 show ?thesis by simp
    next
      case False
      with pl have pl': "processLine (re g) t line b = (b1, False)" by simp
      from assms(1) have
        "fileBatchReader_loop g t r1 (n + 1) b1
           (if echoInput g then out @ [Stdout (dec_int n @ ''> '' @ line)] else out)
         = (b', e, r', out')"
        unfolding fileBatchReader_loop_more [OF rs stop pl'] .
      then have "length (unread r') \<le> length (unread r1)" by (rule fileBatchReader_loop_le)
      with less1 show ?thesis by simp
    qed
  qed
qed

lemma Readline_le:
  "Readline r = (line, e, r1) \<Longrightarrow> length (Instance r1) \<le> length (Instance r)"
  by (auto simp: Readline_def split: list.splits)

lemma Readline_less:
  "Readline r = (line, e, r1) \<Longrightarrow> e \<noteq> Some EOF \<Longrightarrow> length (Instance r1) < length (Instance r)"
  by (auto simp: Readline_def split: list.splits)

lemma readLineBatchReader_loop_unfold:
  assumes "prompt c (server r) n = (srv, evs)" and "Readline (r\<lparr>server := srv\<rparr>) = (line, e, r1)"
  shows "readLineBatchReader_loop g c t r n b out =
     (if e = Some ErrInterrupt then readLineBatchReader_loop g c t r1 1 [] (out @ evs)
      else if e \<noteq> None then ([], e, r1, out @ evs)
      else
        (case processLine (re g) t line b of (b1, found) \<Rightarrow>
           if found then (b1, None, r1, out @ evs @ [SaveHistory b1])
           else readLineBatchReader_loop g c t r1 (n + 1) b1 (out @ evs)))"
  by (subst readLineBatchReader_loop.simps) (simp only: assms prod.case)

lemma readLineBatchReader_loop_le:
  "readLineBatchReader_loop g c t r n b out = (b', e, r', out') \<Longrightarrow>
   length (Instance r') \<le> length (Instance r)"
proof (induction g c t r n b out rule: readLineBatchReader_loop.induct)
  case (1 g c t r lineNo batch out)
  obtain srv evs where pr: "prompt c (server r) lineNo = (srv, evs)"
    by (cases "prompt c (server r) lineNo") auto
  obtain line e1 r1 where rl: "Readline (r\<lparr>server := srv\<rparr>) = (line, e1, r1)"
    by (cases "Readline (r\<lparr>server := srv\<rparr>)") auto
  obtain b1 found where pl: "processLine (re g) t line batch = (b1, found)"
    by (cases "processLine (re g) t line batch") auto
  have le1: "length (Instance r1) \<le> length (Instance r)" using Readline_le [OF rl] by simp
  note unf = readLineBatchReader_loop_unfold [OF pr rl, of g t batch out]
  show ?case
  proof (cases "e1 = Some ErrInterrupt")
    case True
    with "1.prems" unf have "readLineBatchReader_loop g c t r1 1 [] (out @ evs) = (b', e, r', out')"
      by simp
    then have "length (Instance r') \<le> length (Instance r1)"
      using "1.IH"(1) [OF pr [symmetric] rl [symmetric] refl True] by simp
    with le1 show ?thesis by simp
  next
    case ni: False
    show ?thesis
    proof (cases "e1 \<noteq> None")
      case True
      with "1.prems" unf ni have "r' = r1" by simp
      with le1 show ?thesis by simp
    next
      case ne: False
      show ?thesis
      proof (cases found)
        case True
        with "1.prems" unf ni ne pl have "r' = r1" by simp
        with le1 show ?thesis by simp
      next
        case False
        with "1.prems" unf ni ne pl have
          "readLineBatchReader_loop g c t r1 (lineNo + 1) b1 (out @ evs) = (b', e, r', out')"
          by simp
        then have "length (Instance r') \<le> length (Instance r1)"
          using "1.IH"(2) [OF pr [symmetric] rl [symmetric] refl ni ne pl [symmetric] False]
          by simp
        with le1 show ?thesis by simp
      qed
    qed
  qed
qed

lemma readLineBatchReader_loop_less:
  assumes "readLineBatchReader_loop g c t r n b out = (b', e, r', out')"
    and "e = None \<or> b' \<noteq> []"
  shows "length (Instance r') < length (Instance r)"
proof -
  obtain srv evs where pr: "prompt c (server r) n = (srv, evs)"
    by (cases "prompt c (server r) n") auto
  obtain line e1 r1 where rl: "Readline (r\<lparr>server := srv\<rparr>) = (line, e1, r1)"
    by (cases "Readline (r\<lparr>server := srv\<rparr>)") auto
  obtain b1 found where pl: "processLine (re g) t line b = (b1, found)"
    by (cases "processLine (re g) t line b") auto
  note unf = readLineBatchReader_loop_unfold [OF pr rl, of g t b out]
  show ?thesis
  proof (cases "e1 = Some ErrInterrupt")
    case True
    then have less1: "length (Instance r1) < length (Instance r)"
      using Readline_less [OF rl] by simp
    from assms(1) unf True
    have "readLineBatchReader_loop g c t r1 1 [] (out @ evs) = (b', e, r', out')" by simp
    then have "length (Instance r') \<le> length (Instance r1)"
      by (rule readLineBatchReader_loop_le)
    with less1 show ?thesis by simp
  next
    case ni: False
    show ?thesis
    proof (cases "e1 \<noteq> None")
      case True
      with assms(1) unf ni have "b' = []" "e = e1" by simp_all
      with assms(2) True show ?thesis by simp
    next
      case ne: False
      then have less1: "length (Instance r1) < length (Instance r)"
        using Readline_less [OF rl] by simp
      show ?thesis
      proof (cases found)
        case True
        with assms(1) unf ni ne pl have "r' = r1" by simp
        with less1 show ?thesis by simp
      next
        case False
        with assms(1) unf ni ne pl have
          "readLineBatchReader_loop g c t r1 (n + 1) b1 (out @ evs) = (b', e, r', out')"
          by simp
        then have "length (Instance r') \<le> length (Instance r1)"
          by (rule readLineBatchReader_loop_le)
        with less1 show ?thesis by simp
      qed
    qed
  qed
qed

lemma ReadBatch_less:
  assumes "ReadBatch g c t rd = (batch, e, rd', out)" and "e = None \<or> batch \<noteq> []"
  shows "unread_size rd' < unread_size rd"
proof (cases rd)
  case (FileBatchReader r)
  obtain r' where r': "fileBatchReader_loop g t r 1 [] [] = (batch, e, r', out)"
    and rd': "rd' = FileBatchReader r'"
    using assms(1) FileBatchReader
    by (cases "fileBatchReader_loop g t r 1 [] []")
       (auto simp: ReadBatch_def fileBatchReader_ReadBatch_def)
  from r' assms(2) have "length (unread r') < length (unread r)"
    by (rule fileBatchReader_loop_less)
  with FileBatchReader rd' show ?thesis by (simp add: unread_size_def)
next
  case (ReadLineBatchReader r)
  obtain r' where r': "readLineBatchReader_loop g c t r 1 [] [] = (batch, e, r', out)"
    and rd': "rd' = ReadLineBatchReader r'"
    using assms(1) ReadLineBatchReader
    by (cases "readLineBatchReader_loop g c t r 1 [] []")
       (auto simp: ReadBatch_def readLineBatchReader_ReadBatch_def)
  from r' assms(2) have "length (Instance r') < length (Instance r)"
    by (rule readLineBatchReader_loop_less)
  with ReadLineBatchReader rd' show ?thesis by (simp add: unread_size_def)
qed

lemma ReadBatch_less_tuple:
  assumes "(batch, y) = ReadBatch g c t rd" and "(e, ya) = y" and "(rd', out) = ya"
    and "e = None \<or> batch \<noteq> []"
  shows "unread_size rd' < unread_size rd"
proof -
  from assms(1-3) have "ReadBatch g c t rd = (batch, e, rd', out)" by simp
  then show ?thesis using assms(4) by (rule ReadBatch_less)
qed

text \<open>
  Lines 340 to 475. The loop ends in the \<^verbatim>\<open>break\<close> of line 358, in the \<^verbatim>\<open>return\<close> of line 468
  or in a panic; the trace is everything done up to then. The goroutine that listens for a
  signal (lines 361 to 381) is not in the model: \<^verbatim>\<open>QueryContext\<close> is one step.
  \<^verbatim>\<open>
  input:
      for {
          batch, err = r.ReadBatch(terminator)
          switch batch {
          case "\\b":
              conn.Begin()
              continue input
          case "\\c":
              conn.Commit()
              continue input
          case "\\r":
              conn.Rollback()
              continue input
          }
          if err != nil {
              if err != io.EOF {
                  fmt.Println(err)
              }
              break
          }
          ...
          rows, err := conn.QueryContext(ctx, batch, nil)
          ...
          if err != nil {
              if _, ok := err.(tds.SybError); !ok {
                  fmt.Println(err)
              }
              continue input
          }
          for { ... }
      }
  \<close>
\<close>

datatype ending = LoopBreak | MainReturn | Panic panic

definition print_qerr :: "qerr \<Rightarrow> event list" where
  "print_qerr q = (case q of SybError m \<Rightarrow> [] | OtherError m \<Rightarrow> [Stdout (m @ [CHR 0x0A])])"

definition print_err :: "err option \<Rightarrow> event list" where
  "print_err e = (case e of None \<Rightarrow> [] | Some x \<Rightarrow>
                    if x \<noteq> EOF then [Stdout (Error x @ [CHR 0x0A])] else [])"

function main_loop ::
  "globals \<Rightarrow> conn \<Rightarrow> SQLBatchReader \<Rightarrow> event list \<Rightarrow> ending \<times> event list" where
  "main_loop g c rd tr =
     (case ReadBatch g c (terminator g) rd of (batch, e, rd', out) \<Rightarrow>
        if batch = [CHR 0x5C, CHR ''b''] then main_loop g c rd' (tr @ out @ [Begin])
        else if batch = [CHR 0x5C, CHR ''c''] then main_loop g c rd' (tr @ out @ [Commit])
        else if batch = [CHR 0x5C, CHR ''r''] then main_loop g c rd' (tr @ out @ [Rollback])
        else if e \<noteq> None then (LoopBreak, tr @ out @ print_err e)
        else
          (case QueryContext_result c (tr @ out) batch of
             Inl q \<Rightarrow> main_loop g c rd' (tr @ out @ [QueryContext batch] @ print_qerr q)
           | Inr rs \<Rightarrow>
               (case result_loop g rs (tr @ out @ [QueryContext batch]) of
                  (NextBatch, tr') \<Rightarrow> main_loop g c rd' tr'
                | (ReturnMain, tr') \<Rightarrow> (MainReturn, tr')
                | (Panicked p, tr') \<Rightarrow> (Panic p, tr'))))"
  by pat_completeness auto
termination
proof (relation "measure (\<lambda>(g, c, rd, tr). unread_size rd)")
  show "wf (measure (\<lambda>(g, c, rd, tr). unread_size rd))" by simp
qed (auto intro: ReadBatch_less_tuple)

declare main_loop.simps [simp del]

definition main :: "globals \<Rightarrow> conn \<Rightarrow> SQLBatchReader \<Rightarrow> ending \<times> event list" where
  "main g c rd = main_loop g c rd []"

section \<open>Two settings of the flags\<close>

text \<open>
  The flags as \<^verbatim>\<open>init\<close> leaves them with no option given (the terminator is
  \<^verbatim>\<open>;|^go\<close>), and with \<^verbatim>\<open>-c ';'\<close>. In both, \<open>re\<close> is what \<^verbatim>\<open>init\<close> compiles from the
  terminator.
\<close>

definition default_globals :: globals where
  "default_globals =
     \<lparr>echoInput = False, pageSize = 3000, theme = ''UtfCompact'', terminator = '';|^go'',
      re = Cat (Alt (Lit CHR '';'') (Cat Bol (Cat (Lit CHR ''g'') (Lit CHR ''o'')))) Eol\<rparr>"

definition semicolon_globals :: globals where
  "semicolon_globals =
     \<lparr>echoInput = False, pageSize = 3000, theme = ''UtfCompact'', terminator = '';'',
      re = Cat (Lit CHR '';'') Eol\<rparr>"

text \<open>
  A connection with an empty environment, on which every submission fails with a
  \<^verbatim>\<open>tds.SybError\<close>.
\<close>

definition plain_conn :: conn where
  "plain_conn = \<lparr>GetEnv = (\<lambda>k. []), SelectValue_result = (\<lambda>q. None),
                  QueryContext_result = (\<lambda>tr q. Inl (SybError []))\<rparr>"

lemma default_globals_re: "init_re (terminator default_globals) = Some (re default_globals)"
  by code_simp

lemma semicolon_globals_re: "init_re (terminator semicolon_globals) = Some (re semicolon_globals)"
  by code_simp

section \<open>The terminator\<close>

text \<open>
  C1. A match is reported only when the terminator matches at the end of the line, and the
  line returned is then the line without the matched suffix. The code does not do this for
  a terminator with an alternation: \<^verbatim>\<open>terminator+"$"\<close> is parsed as \<^verbatim>\<open>;\<close> or \<^verbatim>\<open>^go$\<close>, so
  with the default terminator a semicolon anywhere in the line ends the batch, while \<open>re\<close>,
  compiled from \<^verbatim>\<open>"(" + terminator + ")$"\<close>, finds nothing to remove at the end. On the line
  \<^verbatim>\<open>select 1; select 2\<close> a match is reported, \<open>re\<close> does not match, and the whole line is
  returned.
\<close>

theorem processLine_mid_line_terminator:
  "init_re '';|^go'' = Some (re default_globals)
   \<and> processLine (re default_globals) '';|^go'' ''select 1; select 2'' []
       = (''select 1; select 2'', True)
   \<and> doExecute (re default_globals) ''select 1; select 2'' 0 = None"
  by code_simp

text \<open>
  C2. The finalized batch joins the accumulated text and the stripped last line with a
  newline. The code appends the stripped line to the batch with nothing between them (the
  branch for a line that does not match puts the newline): after \<^verbatim>\<open>select *\<close>, the line
  \<^verbatim>\<open>from t;\<close> gives the batch \<^verbatim>\<open>select *from t\<close>.
\<close>

theorem processLine_no_newline_before_last_line:
  "init_re '';'' = Some (re semicolon_globals)
   \<and> processLine (re semicolon_globals) '';'' ''from t;'' ''select *''
       = (''select *from t'', True)
   \<and> processLine (re semicolon_globals) '';'' ''from t'' ''select *''
       = (''select *'' @ [CHR 0x0A] @ ''from t'', False)"
  by code_simp

section \<open>The control commands\<close>

text \<open>One round of the main loop, once \<^verbatim>\<open>ReadBatch\<close> has returned.\<close>

lemma main_loop_unfold:
  assumes "ReadBatch g c (terminator g) rd = (batch, e, rd', out)"
  shows "main_loop g c rd tr =
     (if batch = [CHR 0x5C, CHR ''b''] then main_loop g c rd' (tr @ out @ [Begin])
      else if batch = [CHR 0x5C, CHR ''c''] then main_loop g c rd' (tr @ out @ [Commit])
      else if batch = [CHR 0x5C, CHR ''r''] then main_loop g c rd' (tr @ out @ [Rollback])
      else if e \<noteq> None then (LoopBreak, tr @ out @ print_err e)
      else
        (case QueryContext_result c (tr @ out) batch of
           Inl q \<Rightarrow> main_loop g c rd' (tr @ out @ [QueryContext batch] @ print_qerr q)
         | Inr rs \<Rightarrow>
             (case result_loop g rs (tr @ out @ [QueryContext batch]) of
                (NextBatch, tr') \<Rightarrow> main_loop g c rd' tr'
              | (ReturnMain, tr') \<Rightarrow> (MainReturn, tr')
              | (Panicked p, tr') \<Rightarrow> (Panic p, tr'))))"
  by (subst main_loop.simps) (simp only: assms prod.case)

text \<open>
  C7. When \<^verbatim>\<open>ReadBatch\<close> returns a finalized batch (no error) that is exactly \<^verbatim>\<open>\b\<close>, \<^verbatim>\<open>\c\<close>
  or \<^verbatim>\<open>\r\<close>, the round of the main loop does \<^verbatim>\<open>Begin\<close>, \<^verbatim>\<open>Commit\<close> or \<^verbatim>\<open>Rollback\<close>, once, and
  nothing else: no \<^verbatim>\<open>QueryContext\<close>, no rendering; then the loop goes on from the reader as
  \<^verbatim>\<open>ReadBatch\<close> left it.
\<close>

theorem control_command_dispatch:
  assumes "ReadBatch g c (terminator g) rd = (batch, None, rd', out)"
  shows "(batch = [CHR 0x5C, CHR ''b''] \<longrightarrow>
            main_loop g c rd tr = main_loop g c rd' (tr @ out @ [Begin]))
       \<and> (batch = [CHR 0x5C, CHR ''c''] \<longrightarrow>
            main_loop g c rd tr = main_loop g c rd' (tr @ out @ [Commit]))
       \<and> (batch = [CHR 0x5C, CHR ''r''] \<longrightarrow>
            main_loop g c rd tr = main_loop g c rd' (tr @ out @ [Rollback]))"
  by (simp add: main_loop_unfold [OF assms])

theorem control_command_dispatch_witness:
  "ReadBatch semicolon_globals plain_conn (terminator semicolon_globals)
     (ReadLineBatchReader
        \<lparr>Instance = [([CHR 0x5C, CHR ''b'', CHR '';''], None), ([CHR 0x5C, CHR ''c'', CHR '';''], None),
                     ([CHR 0x5C, CHR ''r'', CHR '';''], None)], server = []\<rparr>)
     = ([CHR 0x5C, CHR ''b''], None,
        ReadLineBatchReader
          \<lparr>Instance = [([CHR 0x5C, CHR ''c'', CHR '';''], None), ([CHR 0x5C, CHR ''r'', CHR '';''], None)],
             server = []\<rparr>,
        [SetPrompt '' 1 $ '', SaveHistory [CHR 0x5C, CHR ''b'']])
   \<and> main semicolon_globals plain_conn
     (ReadLineBatchReader
        \<lparr>Instance = [([CHR 0x5C, CHR ''b'', CHR '';''], None), ([CHR 0x5C, CHR ''c'', CHR '';''], None),
                     ([CHR 0x5C, CHR ''r'', CHR '';''], None)], server = []\<rparr>)
     = (LoopBreak,
        [SetPrompt '' 1 $ '', SaveHistory [CHR 0x5C, CHR ''b''], Begin,
         SetPrompt '' 1 $ '', SaveHistory [CHR 0x5C, CHR ''c''], Commit,
         SetPrompt '' 1 $ '', SaveHistory [CHR 0x5C, CHR ''r''], Rollback,
         SetPrompt '' 1 $ ''])"
proof -
  let ?lb = "([CHR 0x5C, CHR ''b'', CHR '';''], None :: err option)"
  let ?lc = "([CHR 0x5C, CHR ''c'', CHR '';''], None :: err option)"
  let ?lr = "([CHR 0x5C, CHR ''r'', CHR '';''], None :: err option)"
  let ?g = semicolon_globals
  have hb: "ReadBatch ?g plain_conn (terminator ?g)
              (ReadLineBatchReader \<lparr>Instance = [?lb, ?lc, ?lr], server = []\<rparr>)
            = ([CHR 0x5C, CHR ''b''], None,
               ReadLineBatchReader \<lparr>Instance = [?lc, ?lr], server = []\<rparr>,
               [SetPrompt '' 1 $ '', SaveHistory [CHR 0x5C, CHR ''b'']])"
    by code_simp
  have hc: "ReadBatch ?g plain_conn (terminator ?g)
              (ReadLineBatchReader \<lparr>Instance = [?lc, ?lr], server = []\<rparr>)
            = ([CHR 0x5C, CHR ''c''], None,
               ReadLineBatchReader \<lparr>Instance = [?lr], server = []\<rparr>,
               [SetPrompt '' 1 $ '', SaveHistory [CHR 0x5C, CHR ''c'']])"
    by code_simp
  have hr: "ReadBatch ?g plain_conn (terminator ?g)
              (ReadLineBatchReader \<lparr>Instance = [?lr], server = []\<rparr>)
            = ([CHR 0x5C, CHR ''r''], None,
               ReadLineBatchReader \<lparr>Instance = [], server = []\<rparr>,
               [SetPrompt '' 1 $ '', SaveHistory [CHR 0x5C, CHR ''r'']])"
    by code_simp
  have k: "main_loop ?g plain_conn (ReadLineBatchReader \<lparr>Instance = [], server = []\<rparr>)
             [SetPrompt '' 1 $ '', SaveHistory [CHR 0x5C, CHR ''b''], Begin,
              SetPrompt '' 1 $ '', SaveHistory [CHR 0x5C, CHR ''c''], Commit,
              SetPrompt '' 1 $ '', SaveHistory [CHR 0x5C, CHR ''r''], Rollback]
           = (LoopBreak,
              [SetPrompt '' 1 $ '', SaveHistory [CHR 0x5C, CHR ''b''], Begin,
               SetPrompt '' 1 $ '', SaveHistory [CHR 0x5C, CHR ''c''], Commit,
               SetPrompt '' 1 $ '', SaveHistory [CHR 0x5C, CHR ''r''], Rollback,
               SetPrompt '' 1 $ ''])"
    by code_simp
  from control_command_dispatch [OF hb, of "[]"]
    control_command_dispatch [OF hc,
      of "[SetPrompt '' 1 $ '', SaveHistory [CHR 0x5C, CHR ''b''], Begin]"]
    control_command_dispatch [OF hr,
      of "[SetPrompt '' 1 $ '', SaveHistory [CHR 0x5C, CHR ''b''], Begin,
           SetPrompt '' 1 $ '', SaveHistory [CHR 0x5C, CHR ''c''], Commit]"]
    k hb
  show ?thesis by (simp add: main_def)
qed

text \<open>
  C10. The batch is compared with the control commands before the error of \<^verbatim>\<open>ReadBatch\<close> is
  looked at: when \<^verbatim>\<open>ReadBatch\<close> returns \<^verbatim>\<open>\b\<close>, \<^verbatim>\<open>\c\<close> or \<^verbatim>\<open>\r\<close> together with an error, the
  transaction call is made, the error is not printed, and the loop goes on to call
  \<^verbatim>\<open>ReadBatch\<close> again. The witness is a script that ends in \<^verbatim>\<open>\b\<close> with no terminator.
\<close>

theorem control_command_before_error:
  assumes "ReadBatch g c (terminator g) rd = (batch, Some e, rd', out)"
  shows "(batch = [CHR 0x5C, CHR ''b''] \<longrightarrow>
            main_loop g c rd tr = main_loop g c rd' (tr @ out @ [Begin]))
       \<and> (batch = [CHR 0x5C, CHR ''c''] \<longrightarrow>
            main_loop g c rd tr = main_loop g c rd' (tr @ out @ [Commit]))
       \<and> (batch = [CHR 0x5C, CHR ''r''] \<longrightarrow>
            main_loop g c rd tr = main_loop g c rd' (tr @ out @ [Rollback]))"
  by (simp add: main_loop_unfold [OF assms])

theorem control_command_before_error_witness:
  "ReadBatch semicolon_globals plain_conn (terminator semicolon_globals)
     (FileBatchReader \<lparr>unread = [CHR 0x5C, CHR ''b''], ferr = EOF\<rparr>)
     = ([CHR 0x5C, CHR ''b''], Some EOF, FileBatchReader \<lparr>unread = [], ferr = EOF\<rparr>, [])
   \<and> main semicolon_globals plain_conn
         (FileBatchReader \<lparr>unread = [CHR 0x5C, CHR ''b''], ferr = EOF\<rparr>)
       = (LoopBreak, [Begin])
   \<and> main semicolon_globals plain_conn
         (FileBatchReader \<lparr>unread = [CHR 0x5C, CHR ''c''], ferr = EOF\<rparr>)
       = (LoopBreak, [Commit])
   \<and> main semicolon_globals plain_conn
         (FileBatchReader \<lparr>unread = [CHR 0x5C, CHR ''r''], ferr = EOF\<rparr>)
       = (LoopBreak, [Rollback])"
proof -
  let ?g = semicolon_globals
  let ?end = "FileBatchReader \<lparr>unread = [], ferr = EOF\<rparr>"
  have hb: "ReadBatch ?g plain_conn (terminator ?g)
              (FileBatchReader \<lparr>unread = [CHR 0x5C, CHR ''b''], ferr = EOF\<rparr>)
            = ([CHR 0x5C, CHR ''b''], Some EOF, ?end, [])"
    by code_simp
  have hc: "ReadBatch ?g plain_conn (terminator ?g)
              (FileBatchReader \<lparr>unread = [CHR 0x5C, CHR ''c''], ferr = EOF\<rparr>)
            = ([CHR 0x5C, CHR ''c''], Some EOF, ?end, [])"
    by code_simp
  have hr: "ReadBatch ?g plain_conn (terminator ?g)
              (FileBatchReader \<lparr>unread = [CHR 0x5C, CHR ''r''], ferr = EOF\<rparr>)
            = ([CHR 0x5C, CHR ''r''], Some EOF, ?end, [])"
    by code_simp
  have k: "main_loop ?g plain_conn ?end [Begin] = (LoopBreak, [Begin])"
    "main_loop ?g plain_conn ?end [Commit] = (LoopBreak, [Commit])"
    "main_loop ?g plain_conn ?end [Rollback] = (LoopBreak, [Rollback])"
    by code_simp+
  from control_command_before_error [OF hb, of "[]"]
    control_command_before_error [OF hc, of "[]"]
    control_command_before_error [OF hr, of "[]"] k hb
  show ?thesis by (simp add: main_def)
qed

section \<open>The pages of a result set\<close>

text \<open>The number of calls of \<^verbatim>\<open>table.Render\<close> in a trace.\<close>

fun is_Render :: "event \<Rightarrow> bool" where
  "is_Render (Render t) = True"
| "is_Render e = False"

definition renders :: "event list \<Rightarrow> nat" where
  "renders evs = length (filter is_Render evs)"

lemma renders_append: "renders (xs @ ys) = renders xs + renders ys"
  by (simp add: renders_def)

lemma renders_summary: "renders (summary a st) = 0"
  by (simp add: renders_def summary_def)

lemma go_rem_dvd: "0 \<le> a \<Longrightarrow> 0 < b \<Longrightarrow> (go_rem a b = 0) = (b dvd a)"
  by (cases "a = 0") (auto simp: go_rem_def sgn_if dvd_eq_mod_eq_0)

lemma div_succ:
  assumes "0 < (b::int)"
  shows "(a + 1) div b = a div b + (if b dvd a + 1 then 1 else 0)"
proof -
  have a: "a = b * (a div b) + a mod b" by simp
  have m0: "0 \<le> a mod b" and mb: "a mod b < b" using assms by simp_all
  show ?thesis
  proof (cases "a mod b + 1 = b")
    case True
    have "a + 1 = b * (a div b) + (a mod b + 1)" using a by linarith
    also have "\<dots> = b * (a div b + 1)" by (simp only: True distrib_left mult_1_right)
    finally have e: "a + 1 = b * (a div b + 1) + 0" by simp
    have "(a + 1) div b = a div b + 1" by (rule int_div_pos_eq [OF e]) (use assms in simp_all)
    moreover have "b dvd a + 1" using e by (metis add.right_neutral dvd_triv_left)
    ultimately show ?thesis by simp
  next
    case False
    with mb have lt: "a mod b + 1 < b" by linarith
    have e: "a + 1 = b * (a div b) + (a mod b + 1)" using a by linarith
    have d: "(a + 1) div b = a div b" by (rule int_div_pos_eq [OF e]) (use m0 lt in simp_all)
    have "(a + 1) mod b = a mod b + 1" by (rule int_mod_pos_eq [OF e]) (use m0 lt in simp_all)
    with m0 have "(a + 1) mod b \<noteq> 0" by linarith
    then have "\<not> b dvd a + 1" by (simp add: dvd_eq_mod_eq_0)
    with d show ?thesis by simp
  qed
qed


lemma row_loop_renders:
  "0 < pageSize g \<Longrightarrow> 0 \<le> r \<Longrightarrow>
   \<exists>t' out'. row_loop g cs rws r t out = Inr (t', out')
     \<and> int (renders out') =
         int (renders out) + ((r + int (length rws)) div pageSize g - r div pageSize g)"
proof (induction rws arbitrary: r t out)
  case Nil
  then show ?case by simp
next
  case (Cons vals rest)
  let ?S = "pageSize g"
  let ?t = "Append t (map cell (fit (length cs) vals))"
  have S: "0 < ?S" and S0: "?S \<noteq> 0" using Cons.prems by simp_all
  have r1: "0 \<le> r + 1" using Cons.prems by simp
  have eq: "r + int (length (vals # rest)) = (r + 1) + int (length rest)" by simp
  note ds = div_succ [OF S, of r]
  show ?case
  proof (cases "?S dvd r + 1")
    case True
    then have z: "go_rem (r + 1) ?S = 0" using go_rem_dvd [OF r1 S] by simp
    have step: "row_loop g cs (vals # rest) r t out =
                row_loop g cs rest (r + 1) (SetHeader (newTable g) cs) (out @ [Render ?t])"
      by (simp add: S0 z)
    from Cons.IH [OF S r1, of "SetHeader (newTable g) cs" "out @ [Render ?t]"]
    obtain t' out' where
      rl: "row_loop g cs rest (r + 1) (SetHeader (newTable g) cs) (out @ [Render ?t]) = Inr (t', out')"
      and n: "int (renders out') = int (renders (out @ [Render ?t]))
                + ((r + 1 + int (length rest)) div ?S - (r + 1) div ?S)"
      by blast
    have "int (renders (out @ [Render ?t])) = int (renders out) + 1"
      by (simp add: renders_def)
    moreover have "(r + 1) div ?S = r div ?S + 1" using ds True by simp
    ultimately have "int (renders out') =
        int (renders out) + ((r + int (length (vals # rest))) div ?S - r div ?S)"
      using n by (simp only: eq)
    with rl step show ?thesis by (simp only: ) blast
  next
    case False
    then have z: "go_rem (r + 1) ?S \<noteq> 0" using go_rem_dvd [OF r1 S] by simp
    have step: "row_loop g cs (vals # rest) r t out = row_loop g cs rest (r + 1) ?t out"
      by (simp add: S0 z)
    from Cons.IH [OF S r1, of ?t out]
    obtain t' out' where
      rl: "row_loop g cs rest (r + 1) ?t out = Inr (t', out')"
      and n: "int (renders out') = int (renders out)
                + ((r + 1 + int (length rest)) div ?S - (r + 1) div ?S)"
      by blast
    have "(r + 1) div ?S = r div ?S" using ds False by simp
    then have "int (renders out') =
        int (renders out) + ((r + int (length (vals # rest))) div ?S - r div ?S)"
      using n by (simp only: eq)
    with rl step show ?thesis by (simp only: ) blast
  qed
qed

lemma result_loop_single:
  "row_loop g cs rws 0 (SetHeader (newTable g) cs) out = Inr (t, out1) \<Longrightarrow>
   result_loop g (Rows (Some cs) rws nerr aff st None) out
     = (NextBatch, after_rows cs t aff st out1)"
  by simp

lemma renders_after_rows:
  "cs \<noteq> [] \<Longrightarrow> renders (after_rows cs t aff st out) = renders out + 1"
  using renders_summary [of aff st] by (simp add: after_rows_def renders_def)

text \<open>
  C4, as the code has it. For a result set with a non-empty column list, \<open>R\<close> rows and a
  page size \<open>S > 0\<close>, \<^verbatim>\<open>Render\<close> is called \<open>R div S + 1\<close> times: once after each full page,
  inside the loop, and once more after the loop, since the test of line 435,
  \<^verbatim>\<open>len(data) > 0 && len(cols) > 0\<close>, looks at the row buffer \<^verbatim>\<open>data\<close>, which has \<^verbatim>\<open>len(cols)\<close>
  places whether or not a row was appended.
\<close>

theorem render_count:
  assumes "0 < pageSize g" and "cs \<noteq> []"
  shows "renders (snd (result_loop g (Rows (Some cs) rws nerr aff st None) out))
         = renders out + length rws div nat (pageSize g) + 1"
proof -
  from row_loop_renders [OF assms(1), of 0 cs rws "SetHeader (newTable g) cs" out]
  obtain t out1 where rl: "row_loop g cs rws 0 (SetHeader (newTable g) cs) out = Inr (t, out1)"
    and n: "int (renders out1) = int (renders out) + (0 + int (length rws)) div pageSize g - 0 div pageSize g"
    by auto
  have "int (length rws) div pageSize g = int (length rws div nat (pageSize g))"
    using assms(1) by (simp add: zdiv_int)
  with n have "renders out1 = renders out + length rws div nat (pageSize g)"
    by simp
  then show ?thesis
    by (simp only: result_loop_single [OF rl] snd_conv renders_after_rows [OF assms(2)])
qed

theorem render_count_witness:
  "0 < pageSize (default_globals\<lparr>pageSize := 2\<rparr>) \<and> [''x''] \<noteq> []
   \<and> renders (snd (result_loop (default_globals\<lparr>pageSize := 2\<rparr>)
        (Rows (Some [''x'']) [[Other ''1''], [Nil], [Other ''3''], [Other ''4'']] EOF (0, False) (0, False) None) [])) = 3"
proof -
  have h: "0 < pageSize (default_globals\<lparr>pageSize := 2\<rparr>)" by (simp add: default_globals_def)
  have k: "[''x''] \<noteq> []" by simp
  from render_count [OF h k, of "[[Other ''1''], [Nil], [Other ''3''], [Other ''4'']]" EOF "(0, False)" "(0, False)" "[]"] h
  show ?thesis by (simp add: renders_def default_globals_def)
qed


text \<open>
  C4, as the claim states it, fails for a result set with a column and no rows: the header
  is rendered once, not zero times.
\<close>

theorem render_count_no_rows:
  "renders (snd (result_loop default_globals
      (Rows (Some [''x'']) [] EOF (0, False) (0, False) None) [])) = 1"
  by code_simp

section \<open>The summary line\<close>




section \<open>A failure of NextResultSet\<close>

text \<open>
  The loop over the result sets reaches a \<^verbatim>\<open>NextResultSet\<close> that returns an error: every
  result set before it has columns, and the last of them is followed by the error.
\<close>

fun advance_fails :: "rows \<Rightarrow> bool" where
  "advance_fails (Rows cols rws nerr aff st nxt) =
     (cols \<noteq> None \<and>
      (case nxt of None \<Rightarrow> False | Some (Inl e) \<Rightarrow> True | Some (Inr rs) \<Rightarrow> advance_fails rs))"


text \<open>A connection on which every batch returns one row and then fails to advance.\<close>

definition failing_conn :: conn where
  "failing_conn = \<lparr>GetEnv = (\<lambda>k. []), SelectValue_result = (\<lambda>q. None),
     QueryContext_result = (\<lambda>tr q. Inr (Rows (Some [''x'']) [[Other ''1'']] EOF
        (0, False) (0, False) (Some (Inl (ErrOther ''connection lost'')))))\<rparr>"

lemma row_loop_Inr:
  "pageSize g \<noteq> 0 \<Longrightarrow> \<exists>t' out'. row_loop g cs rws r t out = Inr (t', out')"
  by (induction rws arbitrary: r t out) simp_all

lemma result_loop_advance_fails:
  "pageSize g \<noteq> 0 \<Longrightarrow> advance_fails rs \<Longrightarrow> fst (result_loop g rs out) = ReturnMain"
proof (induction g rs out rule: result_loop.induct)
  case (1 g cols rws nerr aff st nxt out)
  from "1.prems"(2) obtain cs where cs: "cols = Some cs" by auto
  from row_loop_Inr [OF "1.prems"(1), of cs rws 0 "SetHeader (newTable g) cs" out]
  obtain t out1 where rl: "row_loop g cs rws 0 (SetHeader (newTable g) cs) out = Inr (t, out1)"
    by blast
  show ?case
  proof (cases nxt)
    case None
    with "1.prems"(2) show ?thesis by simp
  next
    case (Some x)
    show ?thesis
    proof (cases x)
      case (Inl e)
      with Some cs rl show ?thesis by simp
    next
      case (Inr rs)
      with Some "1.prems"(2) have af: "advance_fails rs" by simp
      have "fst (result_loop g rs (after_rows cs t aff st out1 @ [Stdout [CHR 0x0A]])) = ReturnMain"
        using "1.IH" [OF cs rl refl Some Inr "1.prems"(1) af] .
      with Some Inr cs rl show ?thesis by simp
    qed
  qed
qed

text \<open>
  C6, as the code has it. Line 468 is \<^verbatim>\<open>return\<close>: when \<^verbatim>\<open>NextResultSet\<close> returns an error,
  \<^verbatim>\<open>main\<close> returns. The trace ends with the result set before the error; no further batch
  is read.
\<close>

theorem next_result_set_error_ends_main:
  assumes "ReadBatch g c (terminator g) rd = (batch, None, rd', out)"
    and "batch \<noteq> [CHR 0x5C, CHR ''b'']" and "batch \<noteq> [CHR 0x5C, CHR ''c'']"
    and "batch \<noteq> [CHR 0x5C, CHR ''r'']"
    and "QueryContext_result c (tr @ out) batch = Inr rs"
    and "advance_fails rs" and "pageSize g \<noteq> 0"
  shows "main_loop g c rd tr =
         (MainReturn, snd (result_loop g rs (tr @ out @ [QueryContext batch])))"
proof -
  obtain fl tr' where rl: "result_loop g rs (tr @ out @ [QueryContext batch]) = (fl, tr')"
    by (cases "result_loop g rs (tr @ out @ [QueryContext batch])") auto
  from result_loop_advance_fails [OF assms(7,6), of "tr @ out @ [QueryContext batch]"] rl
  have "fl = ReturnMain" by simp
  with rl assms(2-5) show ?thesis by (simp add: main_loop_unfold [OF assms(1)])
qed

theorem next_result_set_error_ends_main_witness:
  "ReadBatch semicolon_globals failing_conn (terminator semicolon_globals)
     (ReadLineBatchReader \<lparr>Instance = [(''select 1;'', None), (''select 2;'', None)], server = []\<rparr>)
     = (''select 1'', None,
        ReadLineBatchReader \<lparr>Instance = [(''select 2;'', None)], server = []\<rparr>,
        [SetPrompt '' 1 $ '', SaveHistory ''select 1''])
   \<and> advance_fails (Rows (Some [''x'']) [[Other ''1'']] EOF (0, False) (0, False)
                       (Some (Inl (ErrOther ''connection lost''))))
   \<and> pageSize semicolon_globals \<noteq> 0
   \<and> main_loop semicolon_globals failing_conn
     (ReadLineBatchReader \<lparr>Instance = [(''select 1;'', None), (''select 2;'', None)], server = []\<rparr>) []
     = (MainReturn,
      [SetPrompt '' 1 $ '', SaveHistory ''select 1'', QueryContext ''select 1'',
       Render \<lparr>Theme = UtfCompact, RowSep = False, header = [''x''], body = [[''1'']]\<rparr>,
       Flush])"
proof -
  let ?rs = "Rows (Some [''x'']) [[Other ''1'']] EOF (0, False) (0, False)
                       (Some (Inl (ErrOther ''connection lost'')))"
  let ?out = "[SetPrompt '' 1 $ '', SaveHistory ''select 1'']"
  have h: "ReadBatch semicolon_globals failing_conn (terminator semicolon_globals)
     (ReadLineBatchReader \<lparr>Instance = [(''select 1;'', None), (''select 2;'', None)], server = []\<rparr>)
     = (''select 1'', None,
        ReadLineBatchReader \<lparr>Instance = [(''select 2;'', None)], server = []\<rparr>, ?out)"
    by code_simp
  have b: "''select 1'' \<noteq> [CHR 0x5C, CHR ''b'']" "''select 1'' \<noteq> [CHR 0x5C, CHR ''c'']"
    "''select 1'' \<noteq> [CHR 0x5C, CHR ''r'']" by simp_all
  have q: "QueryContext_result failing_conn ([] @ ?out) ''select 1'' = Inr ?rs"
    by (simp add: failing_conn_def)
  have a: "advance_fails ?rs" by simp
  have p: "pageSize semicolon_globals \<noteq> 0" by (simp add: semicolon_globals_def)
  have r: "snd (result_loop semicolon_globals ?rs ([] @ ?out @ [QueryContext ''select 1'']))
     = [SetPrompt '' 1 $ '', SaveHistory ''select 1'', QueryContext ''select 1'',
       Render \<lparr>Theme = UtfCompact, RowSep = False, header = [''x''], body = [[''1'']]\<rparr>,
       Flush]" by code_simp
  from next_result_set_error_ends_main [OF h b q a p] r h a p show ?thesis by simp
qed


text \<open>
  C6, as the claim states it, fails: with two batches typed and a connection that fails to
  advance, the second batch is neither read nor submitted.
\<close>

theorem next_result_set_error_skips_next_batch:
  "main semicolon_globals failing_conn
     (ReadLineBatchReader \<lparr>Instance = [(''select 1;'', None), (''select 2;'', None)], server = []\<rparr>)
   = (MainReturn,
      [SetPrompt '' 1 $ '', SaveHistory ''select 1'', QueryContext ''select 1'',
       Render \<lparr>Theme = UtfCompact, RowSep = False, header = [''x''], body = [[''1'']]\<rparr>,
       Flush])"
  by code_simp


section \<open>An interrupt at the prompt\<close>

text \<open>
  The events already in the trace do not influence the loop: it only appends to them.
\<close>

lemma readLineBatchReader_loop_out:
  "readLineBatchReader_loop g c t r n b out =
     (case readLineBatchReader_loop g c t r n b [] of (b', e, r', w) \<Rightarrow> (b', e, r', out @ w))"
proof (induction g c t r n b "x :: event list" arbitrary: out rule: readLineBatchReader_loop.induct)
  case (1 g c t r lineNo batch x)
  obtain srv evs where pr: "prompt c (server r) lineNo = (srv, evs)"
    by (cases "prompt c (server r) lineNo") auto
  obtain line e1 r1 where rl: "Readline (r\<lparr>server := srv\<rparr>) = (line, e1, r1)"
    by (cases "Readline (r\<lparr>server := srv\<rparr>)") auto
  obtain b1 found where pl: "processLine (re g) t line batch = (b1, found)"
    by (cases "processLine (re g) t line batch") auto
  note unf = readLineBatchReader_loop_unfold [OF pr rl, of g t batch]
  show ?case
  proof (cases "e1 = Some ErrInterrupt")
    case True
    note ih = "1.IH"(1) [OF pr [symmetric] rl [symmetric] refl True]
    show ?thesis
      by (simp only: unf [of out] unf [of "[]"] True if_True append_Nil)
         (simp add: ih [of "out @ evs"] ih [of evs] split: prod.split)
  next
    case ni: False
    show ?thesis
    proof (cases "e1 \<noteq> None")
      case True
      with ni show ?thesis by (simp add: unf [of out] unf [of "[]"])
    next
      case ne: False
      show ?thesis
      proof (cases found)
        case True
        with ni ne pl show ?thesis by (simp add: unf [of out] unf [of "[]"])
      next
        case False
        note ih = "1.IH"(2) [OF pr [symmetric] rl [symmetric] refl ni ne pl [symmetric] False]
        from ni ne pl False show ?thesis
          by (simp add: unf [of out] unf [of "[]"])
             (simp add: ih [of "out @ evs"] ih [of evs] split: prod.split)
      qed
    qed
  qed
qed

text \<open>
  C8. When \<^verbatim>\<open>Readline\<close> reports \<^verbatim>\<open>readline.ErrInterrupt\<close>, in any state \<open>(n, b)\<close> of the loop,
  the call of \<^verbatim>\<open>ReadBatch\<close> goes on as a call of \<^verbatim>\<open>ReadBatch\<close> on the remaining input does
  from its start, where the line counter is 1 and the batch is empty: the partial batch \<open>b\<close>
  is gone, the next prompt shows line 1, and what this call returns is what the lines after
  the interrupt give. In the witness, \<^verbatim>\<open>select 1\<close> is typed, then an interrupt, then
  \<^verbatim>\<open>select 2;\<close>; the batch is \<^verbatim>\<open>select 2\<close>.
\<close>

theorem interrupt_discards_partial_batch:
  assumes "prompt c (server r) n = (srv, evs)"
    and "Instance r = (line, Some ErrInterrupt) # rest"
  shows "readLineBatchReader_loop g c t r n b out =
     (case readLineBatchReader_ReadBatch g c t (r\<lparr>server := srv, Instance := rest\<rparr>) of
        (b', e, r', w) \<Rightarrow> (b', e, r', out @ evs @ w))"
proof -
  have rl: "Readline (r\<lparr>server := srv\<rparr>)
            = (line, Some ErrInterrupt, r\<lparr>server := srv, Instance := rest\<rparr>)"
    using assms(2) by (simp add: Readline_def)
  have "readLineBatchReader_loop g c t r n b out =
        readLineBatchReader_loop g c t (r\<lparr>server := srv, Instance := rest\<rparr>) 1 [] (out @ evs)"
    by (simp add: readLineBatchReader_loop_unfold [OF assms(1) rl])
  also have "\<dots> = (case readLineBatchReader_loop g c t (r\<lparr>server := srv, Instance := rest\<rparr>) 1 [] [] of
        (b', e, r', w) \<Rightarrow> (b', e, r', (out @ evs) @ w))"
    by (rule readLineBatchReader_loop_out)
  finally show ?thesis by (simp add: readLineBatchReader_ReadBatch_def)
qed

theorem interrupt_discards_partial_batch_witness:
  "prompt plain_conn [] 2 = ([], [SetPrompt '' 2 $ ''])
   \<and> Instance \<lparr>Instance = [(''drop'', Some ErrInterrupt), (''select 2;'', None)], server = []\<rparr>
       = (''drop'', Some ErrInterrupt) # [(''select 2;'', None)]
   \<and> readLineBatchReader_loop semicolon_globals plain_conn '';''
        \<lparr>Instance = [(''drop'', Some ErrInterrupt), (''select 2;'', None)], server = []\<rparr>
        2 ''select 1'' [SetPrompt '' 1 $ '']
       = (''select 2'', None, \<lparr>Instance = [], server = []\<rparr>,
          [SetPrompt '' 1 $ '', SetPrompt '' 2 $ '', SetPrompt '' 1 $ '', SaveHistory ''select 2''])
   \<and> readLineBatchReader_ReadBatch semicolon_globals plain_conn '';''
        \<lparr>Instance = [(''select 1'', None), (''drop'', Some ErrInterrupt), (''select 2;'', None)],
           server = []\<rparr>
       = (''select 2'', None, \<lparr>Instance = [], server = []\<rparr>,
          [SetPrompt '' 1 $ '', SetPrompt '' 2 $ '', SetPrompt '' 1 $ '', SaveHistory ''select 2''])"
proof -
  let ?r = "\<lparr>Instance = [(''drop'', Some ErrInterrupt), (''select 2;'', None)], server = []\<rparr>"
  have p: "prompt plain_conn (server ?r) 2 = ([], [SetPrompt '' 2 $ ''])" by code_simp
  have i: "Instance ?r = (''drop'', Some ErrInterrupt) # [(''select 2;'', None)]" by simp
  have k: "readLineBatchReader_ReadBatch semicolon_globals plain_conn '';''
             (?r\<lparr>server := [], Instance := [(''select 2;'', None)]\<rparr>)
           = (''select 2'', None, \<lparr>Instance = [], server = []\<rparr>,
              [SetPrompt '' 1 $ '', SaveHistory ''select 2''])"
    by code_simp
  have f: "readLineBatchReader_ReadBatch semicolon_globals plain_conn '';''
        \<lparr>Instance = [(''select 1'', None), (''drop'', Some ErrInterrupt), (''select 2;'', None)],
           server = []\<rparr>
       = (''select 2'', None, \<lparr>Instance = [], server = []\<rparr>,
          [SetPrompt '' 1 $ '', SetPrompt '' 2 $ '', SetPrompt '' 1 $ '', SaveHistory ''select 2''])"
    by code_simp
  from interrupt_discards_partial_batch [OF p i, of semicolon_globals "'';''" "''select 1''"
      "[SetPrompt '' 1 $ '']"] k p f
  show ?thesis by simp
qed


section \<open>A script that ends without a terminator\<close>

















end
